theory Spec2Isabelle
  imports Main "HOL-Library.Multiset" "HOL-Library.Sublist"
begin

section \<open>Step links and the Matches relation\<close>

text \<open>
  Modelled from the spec: the declaration of the struct \<^verbatim>\<open>ImageStreamTagReference\<close> is
  not among the sources; the record has the three fields that \<^verbatim>\<open>Matches\<close> and the
  input-image step read (\<^verbatim>\<open>Namespace\<close>, \<^verbatim>\<open>Name\<close>, \<^verbatim>\<open>Tag\<close>). The field names carry
  the prefix \<open>Ref\<close> because \<open>Name\<close> is also an operation of a step.
\<close>

record ImageStreamTagReference =
  RefNamespace :: string
  RefName :: string
  RefTag :: string

text \<open>
  Modelled from the spec: \<^verbatim>\<open>PipelineImageStreamTagReference\<close> is declared outside the
  sources; it is compared with \<^verbatim>\<open>==\<close> and printed with \<^verbatim>\<open>%s\<close>, a string.
\<close>

type_synonym PipelineImageStreamTagReference = string

text \<open>
  The five implementations of the interface \<^verbatim>\<open>StepLink\<close>; the dynamic type of a link is
  its constructor.
\<close>

datatype StepLink =
    externalImageLink ImageStreamTagReference
  | internalImageLink PipelineImageStreamTagReference
  | imagesReadyLink
  | rpmRepoLink
  | releaseImagesLink

definition ExternalImageLink :: "ImageStreamTagReference \<Rightarrow> StepLink" where
  "ExternalImageLink ref = externalImageLink ref"

definition InternalImageLink :: "PipelineImageStreamTagReference \<Rightarrow> StepLink" where
  "InternalImageLink ref = internalImageLink ref"

definition ImagesReadyLink :: StepLink where
  "ImagesReadyLink = imagesReadyLink"

definition RPMRepoLink :: StepLink where
  "RPMRepoLink = rpmRepoLink"

definition ReleaseImagesLink :: StepLink where
  "ReleaseImagesLink = releaseImagesLink"

text \<open>
  \<^verbatim>\<open>l.Matches(other)\<close>: one equation per receiver type, each a type switch on
  \<open>other\<close> with a \<^verbatim>\<open>default\<close> branch returning false.
\<close>

fun Matches :: "StepLink \<Rightarrow> StepLink \<Rightarrow> bool" where
  "Matches (externalImageLink l_image) other =
     (case other of
        externalImageLink link_image \<Rightarrow>
          RefName l_image = RefName link_image \<and>
          RefNamespace l_image = RefNamespace link_image \<and>
          RefTag l_image = RefTag link_image
      | _ \<Rightarrow> False)"
| "Matches (internalImageLink l_image) other =
     (case other of internalImageLink link_image \<Rightarrow> l_image = link_image | _ \<Rightarrow> False)"
| "Matches imagesReadyLink other =
     (case other of imagesReadyLink \<Rightarrow> True | _ \<Rightarrow> False)"
| "Matches rpmRepoLink other =
     (case other of rpmRepoLink \<Rightarrow> True | _ \<Rightarrow> False)"
| "Matches releaseImagesLink other =
     (case other of releaseImagesLink \<Rightarrow> True | _ \<Rightarrow> False)"

text \<open>The kind of a link: which of the five Go types it is.\<close>

datatype LinkKind = ExternalKind | InternalKind | ImagesReadyKind | RPMRepoKind | ReleaseImagesKind

fun kind :: "StepLink \<Rightarrow> LinkKind" where
  "kind (externalImageLink _) = ExternalKind"
| "kind (internalImageLink _) = InternalKind"
| "kind imagesReadyLink = ImagesReadyKind"
| "kind rpmRepoLink = RPMRepoKind"
| "kind releaseImagesLink = ReleaseImagesKind"

section \<open>Steps and nodes\<close>

text \<open>
  The operations of the interface \<^verbatim>\<open>Step\<close> that the graph builder calls. They are
  fields: the builder assumes that repeated calls give the same answer.
\<close>

record Step =
  Name :: string
  Requires :: "StepLink list"
  Creates :: "StepLink list"

text \<open>
  \<^verbatim>\<open>StepNode\<close>. The builder holds nodes by pointer and compares pointers, so two nodes
  of equal content are different nodes. A pointer is the index of the node in
  \<^verbatim>\<open>allNodes\<close>, and the nodes live in a store, the list of all nodes.
\<close>

record StepNode =
  Step :: Step
  Children :: "nat list"

text \<open>
  \<^verbatim>\<open>addToNode(parent, child)\<close> on the store: the children of \<open>parent\<close> are searched for
  the pointer \<open>child\<close>; it is appended when absent.
\<close>

definition addToNode :: "StepNode list \<Rightarrow> nat \<Rightarrow> nat \<Rightarrow> StepNode list \<times> bool" where
  "addToNode ns parent child =
     (if child \<in> set (Children (ns ! parent)) then (ns, False)
      else (ns[parent := (ns ! parent)\<lparr>Children := Children (ns ! parent) @ [child]\<rparr>], True))"

section \<open>BuildGraph\<close>

text \<open>
  The four nested loops of \<^verbatim>\<open>BuildGraph\<close>, innermost first. The state of the three inner
  loops is the store and the flag \<^verbatim>\<open>isRoot\<close>; \<open>node\<close> and \<open>other\<close> are pointers.
\<close>

fun createsLoop :: "nat \<Rightarrow> nat \<Rightarrow> StepLink \<Rightarrow> StepLink list \<Rightarrow> StepNode list \<times> bool \<Rightarrow> StepNode list \<times> bool" where
  "createsLoop node other nodeRequires [] st = st"
| "createsLoop node other nodeRequires (otherCreates # cs) (ns, isRoot) =
     createsLoop node other nodeRequires cs
       (if Matches nodeRequires otherCreates then (fst (addToNode ns other node), False)
        else (ns, isRoot))"

fun requiresLoop :: "nat \<Rightarrow> nat \<Rightarrow> StepLink list \<Rightarrow> StepNode list \<times> bool \<Rightarrow> StepNode list \<times> bool" where
  "requiresLoop node other [] st = st"
| "requiresLoop node other (nodeRequires # rs) (ns, isRoot) =
     requiresLoop node other rs
       (createsLoop node other nodeRequires (Creates (Step (ns ! other))) (ns, isRoot))"

fun othersLoop :: "nat \<Rightarrow> nat list \<Rightarrow> StepNode list \<times> bool \<Rightarrow> StepNode list \<times> bool" where
  "othersLoop node [] st = st"
| "othersLoop node (other # os) (ns, isRoot) =
     othersLoop node os (requiresLoop node other (Requires (Step (ns ! node))) (ns, isRoot))"

fun nodesLoop :: "nat list \<Rightarrow> StepNode list \<times> nat list \<Rightarrow> StepNode list \<times> nat list" where
  "nodesLoop [] st = st"
| "nodesLoop (node # rest) (ns, roots) =
     (case othersLoop node [0..<length ns] (ns, True) of
        (ns', isRoot) \<Rightarrow> nodesLoop rest (ns', if isRoot then roots @ [node] else roots))"

text \<open>
  \<^verbatim>\<open>BuildGraph\<close> returns the root pointers; the model returns the store with them, since
  the children hang off the nodes the pointers lead to.
\<close>

definition BuildGraph :: "Step list \<Rightarrow> StepNode list \<times> nat list" where
  "BuildGraph steps =
     (let allNodes = map (\<lambda>step. \<lparr>Step = step, Children = []\<rparr>) steps
      in nodesLoop [0..<length allNodes] (allNodes, []))"

section \<open>BuildPartialGraph\<close>

text \<open>\<^verbatim>\<open>HasAnyLinks(steps, candidates)\<close>: some link of \<open>steps\<close> matches some candidate.\<close>

fun HasAnyLinks :: "StepLink list \<Rightarrow> StepLink list \<Rightarrow> bool" where
  "HasAnyLinks steps [] = False"
| "HasAnyLinks steps (candidate # candidates) =
     (if list_ex (\<lambda>step. Matches step candidate) steps then True
      else HasAnyLinks steps candidates)"

text \<open>An error value made by \<^verbatim>\<open>fmt.Errorf\<close>, with its message.\<close>

datatype error = Errorf string

text \<open>\<^verbatim>\<open>strings.Join(elems, sep)\<close>.\<close>

fun Join :: "string list \<Rightarrow> string \<Rightarrow> string" where
  "Join [] sep = []"
| "Join [a] sep = a"
| "Join (a # b # elems) sep = a @ sep @ Join (b # elems) sep"

text \<open>
  The inner loop \<^verbatim>\<open>for j, name := range names\<close> for one step: at the first \<open>j\<close> whose name
  is the step's name it leaves with \<^verbatim>\<open>break\<close> and the names without entry \<open>j\<close>
  (\<^verbatim>\<open>append(names[:j], names[j+1:]...)\<close>); \<open>None\<close> when the loop runs to its end.
\<close>

fun namesLoop :: "string list \<Rightarrow> string \<Rightarrow> string list option" where
  "namesLoop [] stepName = None"
| "namesLoop (name # rest) stepName =
     (if name \<noteq> stepName then map_option ((#) name) (namesLoop rest stepName)
      else Some rest)"

text \<open>
  The loop \<^verbatim>\<open>for i, step := range steps\<close> that seeds the selection; its state is
  \<^verbatim>\<open>candidates\<close>, \<^verbatim>\<open>required\<close> and \<^verbatim>\<open>names\<close>.
\<close>

fun seedLoop :: "nat \<Rightarrow> Step list \<Rightarrow> bool list \<times> StepLink list \<times> string list
    \<Rightarrow> bool list \<times> StepLink list \<times> string list" where
  "seedLoop i [] st = st"
| "seedLoop i (step # rest) (candidates, required, names) =
     seedLoop (Suc i) rest
       (case namesLoop names (Name step) of
          None \<Rightarrow> (candidates, required, names)
        | Some names' \<Rightarrow> (candidates[i := True], required @ Requires step, names'))"

text \<open>
  One pass of the closure: the loop \<^verbatim>\<open>for i, step := range steps\<close> inside \<^verbatim>\<open>for { }\<close>;
  its state is \<^verbatim>\<open>candidates\<close>, \<^verbatim>\<open>required\<close> and \<^verbatim>\<open>added\<close>.
\<close>

fun scanLoop :: "nat \<Rightarrow> Step list \<Rightarrow> bool list \<times> StepLink list \<times> nat
    \<Rightarrow> bool list \<times> StepLink list \<times> nat" where
  "scanLoop i [] st = st"
| "scanLoop i (step # rest) (candidates, required, added) =
     scanLoop (Suc i) rest
       (if candidates ! i then (candidates, required, added)
        else if HasAnyLinks required (Creates step)
          then (candidates[i := True], required @ Requires step, added + 1)
          else (candidates, required, added))"

text \<open>
  The loop \<^verbatim>\<open>for { }\<close>, left by \<^verbatim>\<open>break\<close> when a pass added nothing. The loop has no
  bound of its own, so a run that never leaves it has the value \<open>None\<close>. The last
  argument counts the passes begun; the source keeps no such counter, and nothing
  reads it but the statements about the number of passes.
\<close>

partial_function (option) closureLoop :: "Step list \<Rightarrow> bool list \<Rightarrow> StepLink list \<Rightarrow> nat
    \<Rightarrow> (bool list \<times> StepLink list \<times> nat) option" where
  "closureLoop steps candidates required passes =
     (case scanLoop 0 steps (candidates, required, 0) of
        (candidates', required', added) \<Rightarrow>
          if added = 0 then Some (candidates', required', Suc passes)
          else closureLoop steps candidates' required' (Suc passes))"

declare closureLoop.simps [code]

text \<open>The last loop: the steps whose flag is set, in the order of \<open>steps\<close>.\<close>

definition targetedSteps :: "Step list \<Rightarrow> bool list \<Rightarrow> Step list" where
  "targetedSteps steps candidates =
     map (\<lambda>i. steps ! i) (filter (\<lambda>i. candidates ! i) [0..<length candidates])"

definition notFoundPrefix :: string where
  "notFoundPrefix = ''the following names were not found in the config or were duplicates: ''"

text \<open>
  \<^verbatim>\<open>BuildPartialGraph\<close>: \<open>Inl\<close> is the error return (with a nil graph), \<open>Inr\<close> the
  graph with a nil error; \<open>None\<close> stands for a closure loop that never ends.
\<close>

definition BuildPartialGraph :: "Step list \<Rightarrow> string list \<Rightarrow> (error + StepNode list \<times> nat list) option" where
  "BuildPartialGraph steps names =
     (if length names = 0 then Some (Inr (BuildGraph steps))
      else
        case seedLoop 0 steps (replicate (length steps) False, [], names) of
          (candidates, required, names') \<Rightarrow>
            if length names' > 0
            then Some (Inl (Errorf (notFoundPrefix @ Join names' '', '')))
            else
              (case closureLoop steps candidates required 0 of
                 None \<Rightarrow> None
               | Some (candidates', required', passes) \<Rightarrow>
                   Some (Inr (BuildGraph (targetedSteps steps candidates')))))"

section \<open>Notions the statements are about\<close>

text \<open>
  The test of the innermost loops of \<^verbatim>\<open>BuildGraph\<close>, for a pair of steps: some link that
  \<open>node\<close> requires matches some link that \<open>other\<close> creates.
\<close>

definition dependsOn :: "Step \<Rightarrow> Step \<Rightarrow> bool" where
  "dependsOn node other = (\<exists>r\<in>set (Requires node). \<exists>c\<in>set (Creates other). Matches r c)"

text \<open>The same relation read from the creating step: a link that \<open>a\<close> creates matches one that \<open>b\<close> requires.\<close>

definition createsFor :: "Step \<Rightarrow> Step \<Rightarrow> bool" where
  "createsFor a b = (\<exists>c\<in>set (Creates a). \<exists>r\<in>set (Requires b). Matches c r)"

text \<open>The edges of the node graph in a store, from a node to each of its children.\<close>

definition childEdges :: "StepNode list \<Rightarrow> (nat \<times> nat) set" where
  "childEdges ns = {(p, c). p < length ns \<and> c \<in> set (Children (ns ! p))}"

text \<open>
  A node is in the returned forest when a returned root reaches it along child edges;
  \<open>a\<close> is an ancestor of \<open>b\<close> in the returned forest when \<open>a\<close> is in the forest and
  reaches \<open>b\<close> in one or more child edges.
\<close>

definition inForest :: "StepNode list \<times> nat list \<Rightarrow> nat \<Rightarrow> bool" where
  "inForest g x = (\<exists>r\<in>set (snd g). (r, x) \<in> (childEdges (fst g))\<^sup>*)"

definition ancestorInForest :: "StepNode list \<times> nat list \<Rightarrow> nat \<Rightarrow> nat \<Rightarrow> bool" where
  "ancestorInForest g a b = (inForest g a \<and> (a, b) \<in> (childEdges (fst g))\<^sup>+)"

text \<open>The dependencies among the input steps, by position: from the creating step to the requiring one.\<close>

definition dependencyEdges :: "Step list \<Rightarrow> (nat \<times> nat) set" where
  "dependencyEdges steps =
     {(a, b). a < length steps \<and> b < length steps \<and> dependsOn (steps ! b) (steps ! a)}"

text \<open>The names that the seeding loop of \<^verbatim>\<open>BuildPartialGraph\<close> leaves in \<^verbatim>\<open>names\<close>.\<close>

definition leftoverNames :: "Step list \<Rightarrow> string list \<Rightarrow> string list" where
  "leftoverNames steps names =
     snd (snd (seedLoop 0 steps (replicate (length steps) False, [], names)))"

text \<open>The number of steps not yet marked in \<^verbatim>\<open>candidates\<close>.\<close>

definition unmarked :: "bool list \<Rightarrow> nat" where
  "unmarked candidates = length (filter Not candidates)"

text \<open>
  The scenario of the specification: \<open>X\<close> requires nothing and creates \<open>L1\<close>, \<open>Y\<close> requires
  \<open>L1\<close> and creates \<open>L2\<close>, \<open>Z\<close> requires \<open>L1\<close> and creates \<open>L3\<close>.
\<close>

definition stepX :: "StepLink \<Rightarrow> Step" where
  "stepX L1 = \<lparr>Name = ''X'', Requires = [], Creates = [L1]\<rparr>"

definition stepY :: "StepLink \<Rightarrow> StepLink \<Rightarrow> Step" where
  "stepY L1 L2 = \<lparr>Name = ''Y'', Requires = [L1], Creates = [L2]\<rparr>"

definition stepZ :: "StepLink \<Rightarrow> StepLink \<Rightarrow> Step" where
  "stepZ L1 L3 = \<lparr>Name = ''Z'', Requires = [L1], Creates = [L3]\<rparr>"

section \<open>Matches\<close>

lemma Matches_refl [simp]: "Matches l l"
  by (cases l) simp_all

lemma Matches_sym: "Matches l1 l2 = Matches l2 l1"
  by (cases l1; cases l2) auto

lemma Matches_kind: "Matches l1 l2 \<Longrightarrow> kind l1 = kind l2"
  by (cases l1; cases l2) simp_all

lemma createsFor_dependsOn: "createsFor a b = dependsOn b a"
  unfolding createsFor_def dependsOn_def using Matches_sym by blast

section \<open>The loops of BuildGraph\<close>


lemma addToNode_length: "length (fst (addToNode ns p c)) = length ns"
  by (simp add: addToNode_def)

lemma addToNode_Step: "k < length ns \<Longrightarrow> Step (fst (addToNode ns p c) ! k) = Step (ns ! k)"
  by (cases "k = p") (simp_all add: addToNode_def)

lemma addToNode_Children:
  "k < length ns \<Longrightarrow> p < length ns \<Longrightarrow>
   Children (fst (addToNode ns p c) ! k) =
     (if k = p \<and> c \<notin> set (Children (ns ! p)) then Children (ns ! p) @ [c] else Children (ns ! k))"
  by (cases "k = p") (simp_all add: addToNode_def)

lemma addToNode_idem: "fst (addToNode (fst (addToNode ns p c)) p c) = fst (addToNode ns p c)"
proof (cases "p < length ns")
  case True
  then show ?thesis by (simp add: addToNode_def)
next
  case False
  then show ?thesis by (simp add: addToNode_def not_less list_update_beyond)
qed

lemma createsLoop_eq:
  "createsLoop node other r cs (ns, isRoot) =
     (if \<exists>c\<in>set cs. Matches r c then (fst (addToNode ns other node), False) else (ns, isRoot))"
  by (induction cs arbitrary: ns isRoot) (simp_all add: addToNode_idem)

lemma requiresLoop_eq:
  "other < length ns \<Longrightarrow> requiresLoop node other rs (ns, isRoot) =
     (if \<exists>r\<in>set rs. \<exists>c\<in>set (Creates (Step (ns ! other))). Matches r c
      then (fst (addToNode ns other node), False) else (ns, isRoot))"
  by (induction rs arbitrary: ns isRoot)
     (simp_all add: createsLoop_eq addToNode_idem addToNode_Step addToNode_length)

lemma othersLoop_step:
  "other < length ns \<Longrightarrow>
   requiresLoop node other (Requires (Step (ns ! node))) (ns, isRoot) =
     (if dependsOn (Step (ns ! node)) (Step (ns ! other))
      then (fst (addToNode ns other node), False) else (ns, isRoot))"
  by (simp add: requiresLoop_eq dependsOn_def)

lemma othersLoop_props:
  assumes "node < length ns" "set os \<subseteq> {..<length ns}"
    and "othersLoop node os (ns, isRoot) = (ns', isRoot')"
  shows "length ns' = length ns
    \<and> (\<forall>k<length ns. Step (ns' ! k) = Step (ns ! k))
    \<and> isRoot' = (isRoot \<and> \<not> (\<exists>other\<in>set os. dependsOn (Step (ns ! node)) (Step (ns ! other))))
    \<and> (\<forall>k<length ns. Children (ns' ! k) =
         (if k \<in> set os \<and> dependsOn (Step (ns ! node)) (Step (ns ! k)) \<and> node \<notin> set (Children (ns ! k))
          then Children (ns ! k) @ [node] else Children (ns ! k)))"
  using assms
proof (induction os arbitrary: ns isRoot)
  case Nil
  then show ?case by simp
next
  case (Cons other os)
  have o: "other < length ns" using Cons.prems(2) by simp
  show ?case
  proof (cases "dependsOn (Step (ns ! node)) (Step (ns ! other))")
    case False
    with Cons.prems o have "othersLoop node os (ns, isRoot) = (ns', isRoot')"
      by (simp add: othersLoop_step)
    from Cons.IH[OF Cons.prems(1) _ this] Cons.prems(2) False show ?thesis
      by auto
  next
    case True
    let ?ns1 = "fst (addToNode ns other node)"
    from Cons.prems o True have run: "othersLoop node os (?ns1, False) = (ns', isRoot')"
      by (simp add: othersLoop_step)
    have len: "length ?ns1 = length ns" by (rule addToNode_length)
    have n1: "node < length ?ns1" using Cons.prems(1) len by simp
    have s1: "set os \<subseteq> {..<length ?ns1}" using Cons.prems(2) len by simp
    note ih = Cons.IH[OF n1 s1 run]
    have st: "\<And>k. k < length ns \<Longrightarrow> Step (?ns1 ! k) = Step (ns ! k)"
      by (rule addToNode_Step)
    have ch: "\<And>k. k < length ns \<Longrightarrow> Children (?ns1 ! k) =
        (if k = other \<and> node \<notin> set (Children (ns ! other)) then Children (ns ! other) @ [node] else Children (ns ! k))"
      using o by (simp add: addToNode_Children)
    show ?thesis
      using ih True o Cons.prems(1) by (auto simp: len st ch)
  qed
qed


lemma nodesLoop_props:
  assumes "set is \<subseteq> {..<length ns}" "distinct is"
    and "nodesLoop is (ns, roots) = (ns', roots')"
  shows "length ns' = length ns
    \<and> (\<forall>k<length ns. Step (ns' ! k) = Step (ns ! k))
    \<and> roots' = roots @ filter (\<lambda>i. \<not> (\<exists>other<length ns. dependsOn (Step (ns ! i)) (Step (ns ! other)))) is
    \<and> (\<forall>k<length ns. Children (ns' ! k) =
         Children (ns ! k) @
           filter (\<lambda>i. dependsOn (Step (ns ! i)) (Step (ns ! k)) \<and> i \<notin> set (Children (ns ! k))) is)"
  using assms
proof (induction "is" arbitrary: ns roots)
  case Nil
  then show ?case by simp
next
  case (Cons node rest)
  obtain ns1 isRoot where inner: "othersLoop node [0..<length ns] (ns, True) = (ns1, isRoot)"
    by (cases "othersLoop node [0..<length ns] (ns, True)")
  have nd: "node < length ns" using Cons.prems(1) by simp
  have "set [0..<length ns] \<subseteq> {..<length ns}" by auto
  from othersLoop_props[OF nd this inner]
  have len1: "length ns1 = length ns"
    and st1: "\<And>k. k < length ns \<Longrightarrow> Step (ns1 ! k) = Step (ns ! k)"
    and root1: "isRoot = (\<not> (\<exists>other<length ns. dependsOn (Step (ns ! node)) (Step (ns ! other))))"
    and ch1: "\<And>k. k < length ns \<Longrightarrow> Children (ns1 ! k) =
         (if dependsOn (Step (ns ! node)) (Step (ns ! k)) \<and> node \<notin> set (Children (ns ! k))
          then Children (ns ! k) @ [node] else Children (ns ! k))"
    by auto
  let ?roots1 = "if isRoot then roots @ [node] else roots"
  from Cons.prems(3) inner have run: "nodesLoop rest (ns1, ?roots1) = (ns', roots')"
    by simp
  have sub: "set rest \<subseteq> {..<length ns1}" using Cons.prems(1) len1 by simp
  have dist: "distinct rest" and notin: "node \<notin> set rest" using Cons.prems(2) by simp_all
  note ih = Cons.IH[OF sub dist run]
  have rest_lt: "\<And>i. i \<in> set rest \<Longrightarrow> i < length ns" using Cons.prems(1) by auto
  have A: "length ns' = length ns" using ih len1 by simp
  have B: "\<forall>k<length ns. Step (ns' ! k) = Step (ns ! k)" using ih len1 st1 by simp
  have filt_roots: "filter (\<lambda>i. \<not> (\<exists>other<length ns1. dependsOn (Step (ns1 ! i)) (Step (ns1 ! other)))) rest
      = filter (\<lambda>i. \<not> (\<exists>other<length ns. dependsOn (Step (ns ! i)) (Step (ns ! other)))) rest"
    by (rule filter_cong) (auto simp: len1 st1 rest_lt)
  have C: "roots' = roots @ filter (\<lambda>i. \<not> (\<exists>other<length ns. dependsOn (Step (ns ! i)) (Step (ns ! other)))) (node # rest)"
    using ih filt_roots root1 by simp
  have D: "\<forall>k<length ns. Children (ns' ! k) =
         Children (ns ! k) @
           filter (\<lambda>i. dependsOn (Step (ns ! i)) (Step (ns ! k)) \<and> i \<notin> set (Children (ns ! k))) (node # rest)"
  proof (intro allI impI)
    fix k assume k: "k < length ns"
    have filt: "filter (\<lambda>i. dependsOn (Step (ns1 ! i)) (Step (ns1 ! k)) \<and> i \<notin> set (Children (ns1 ! k))) rest
      = filter (\<lambda>i. dependsOn (Step (ns ! i)) (Step (ns ! k)) \<and> i \<notin> set (Children (ns ! k))) rest"
      using notin by (intro filter_cong) (auto simp: st1 rest_lt k ch1)
    from ih k len1 have "Children (ns' ! k) = Children (ns1 ! k) @
        filter (\<lambda>i. dependsOn (Step (ns1 ! i)) (Step (ns1 ! k)) \<and> i \<notin> set (Children (ns1 ! k))) rest"
      by simp
    then show "Children (ns' ! k) = Children (ns ! k) @
           filter (\<lambda>i. dependsOn (Step (ns ! i)) (Step (ns ! k)) \<and> i \<notin> set (Children (ns ! k))) (node # rest)"
      unfolding filt by (simp add: ch1 k)
  qed
  from A B C D show ?case by blast
qed

lemma BuildGraph_props:
  assumes "BuildGraph steps = (ns, roots)"
  shows "length ns = length steps"
    and "\<And>k. k < length steps \<Longrightarrow> Step (ns ! k) = steps ! k"
    and "\<And>k. k < length steps \<Longrightarrow>
           Children (ns ! k) = filter (\<lambda>i. dependsOn (steps ! i) (steps ! k)) [0..<length steps]"
    and "roots = filter (\<lambda>i. \<not> (\<exists>other<length steps. dependsOn (steps ! i) (steps ! other))) [0..<length steps]"
proof -
  let ?all = "map (\<lambda>step. \<lparr>Step = step, Children = []\<rparr>) steps"
  have run: "nodesLoop [0..<length ?all] (?all, []) = (ns, roots)"
    using assms by (simp add: BuildGraph_def)
  have "set [0..<length ?all] \<subseteq> {..<length ?all}" by auto
  note p = nodesLoop_props[OF this distinct_upt run]
  show "length ns = length steps" using p by simp
  show "\<And>k. k < length steps \<Longrightarrow> Step (ns ! k) = steps ! k" using p by simp
  show "\<And>k. k < length steps \<Longrightarrow>
           Children (ns ! k) = filter (\<lambda>i. dependsOn (steps ! i) (steps ! k)) [0..<length steps]"
  proof -
    fix k assume k: "k < length steps"
    have "filter (\<lambda>i. dependsOn (Step (?all ! i)) (Step (?all ! k)) \<and> i \<notin> set (Children (?all ! k))) [0..<length ?all]
        = filter (\<lambda>i. dependsOn (steps ! i) (steps ! k)) [0..<length steps]"
      using k by (intro filter_cong) auto
    with p k show "Children (ns ! k) = filter (\<lambda>i. dependsOn (steps ! i) (steps ! k)) [0..<length steps]"
      by simp
  qed
  have "filter (\<lambda>i. \<not> (\<exists>other<length ?all. dependsOn (Step (?all ! i)) (Step (?all ! other)))) [0..<length ?all]
      = filter (\<lambda>i. \<not> (\<exists>other<length steps. dependsOn (steps ! i) (steps ! other))) [0..<length steps]"
    by (intro filter_cong) auto
  with p show "roots = filter (\<lambda>i. \<not> (\<exists>other<length steps. dependsOn (steps ! i) (steps ! other))) [0..<length steps]"
    by simp
qed


section \<open>The loops of BuildPartialGraph\<close>


lemma namesLoop_eq:
  "namesLoop names n = (if n \<in> set names then Some (remove1 n names) else None)"
  by (induction names) auto

lemma seedLoop_names:
  "snd (snd (seedLoop i steps (c, r, names))) = fold (\<lambda>step ns. remove1 (Name step) ns) steps names"
  by (induction steps arbitrary: i c r names) (simp_all add: namesLoop_eq remove1_idem)

lemma fold_remove1_mset:
  "mset (fold (\<lambda>step ns. remove1 (Name step) ns) steps names) = mset names - mset (map Name steps)"
  by (induction steps arbitrary: names) simp_all

lemma fold_remove1_subseq:
  "subseq (fold (\<lambda>step ns. remove1 (Name step) ns) steps names) names"
proof (induction steps arbitrary: names)
  case Nil
  then show ?case by simp
next
  case (Cons s steps)
  have "subseq (remove1 (Name s) names) names"
    by (induction names) auto
  moreover have "subseq (fold (\<lambda>step ns. remove1 (Name step) ns) steps (remove1 (Name s) names)) (remove1 (Name s) names)"
    by (rule Cons)
  ultimately have "subseq (fold (\<lambda>step ns. remove1 (Name step) ns) steps (remove1 (Name s) names)) names"
    by (rule subseq_order.order_trans[rotated])
  then show ?case by simp
qed

lemma seedLoop_length:
  "length (fst (seedLoop i steps (c, r, names))) = length c"
  by (induction steps arbitrary: i c r names) (simp_all split: option.splits)

lemma seedLoop_keeps_True:
  "True \<in> set c \<Longrightarrow> True \<in> set (fst (seedLoop i steps (c, r, names)))"
proof (induction steps arbitrary: i c r names)
  case Nil
  then show ?case by simp
next
  case (Cons s steps)
  have "True \<in> set (c[i := True])"
  proof (cases "i < length c")
    case True
    then show ?thesis by (simp add: set_update_memI)
  next
    case False
    then show ?thesis using Cons.prems by (simp add: list_update_beyond)
  qed
  with Cons show ?case by (simp split: option.splits)
qed

lemma seedLoop_marks:
  assumes "i + length steps \<le> length c"
    and "snd (snd (seedLoop i steps (c, r, names))) \<noteq> names"
  shows "True \<in> set (fst (seedLoop i steps (c, r, names)))"
  using assms
proof (induction steps arbitrary: i c r names)
  case Nil
  then show ?case by simp
next
  case (Cons s steps)
  show ?case
  proof (cases "namesLoop names (Name s)")
    case None
    with Cons.prems Cons.IH[of "Suc i" c r names] show ?thesis by simp
  next
    case (Some names1)
    have "i < length c" using Cons.prems(1) by simp
    then have "True \<in> set (c[i := True])" by (simp add: set_update_memI)
    from seedLoop_keeps_True[OF this] Some show ?thesis by simp
  qed
qed

lemma unmarked_update:
  "i < length c \<Longrightarrow> \<not> c ! i \<Longrightarrow> Suc (unmarked (c[i := True])) = unmarked c"
  unfolding unmarked_def
proof (induction c arbitrary: i)
  case Nil
  then show ?case by simp
next
  case (Cons x c)
  then show ?case by (cases i) auto
qed

lemma scanLoop_count:
  assumes "i + length steps \<le> length c"
    and "scanLoop i steps (c, r, a) = (c', r', a')"
  shows "length c' = length c \<and> unmarked c' + a' = unmarked c + a"
  using assms
proof (induction steps arbitrary: i c r a)
  case Nil
  then show ?case by simp
next
  case (Cons s steps)
  have i: "i < length c" using Cons.prems(1) by simp
  show ?case
  proof (cases "\<not> c ! i \<and> HasAnyLinks r (Creates s)")
    case True
    with Cons.prems have run: "scanLoop (Suc i) steps (c[i := True], r @ Requires s, a + 1) = (c', r', a')"
      by simp
    have "Suc i + length steps \<le> length (c[i := True])" using Cons.prems(1) by simp
    from Cons.IH[OF this run] unmarked_update[OF i] True show ?thesis by auto
  next
    case False
    with Cons.prems have run: "scanLoop (Suc i) steps (c, r, a) = (c', r', a')"
      by (auto split: if_splits)
    have "Suc i + length steps \<le> length c" using Cons.prems(1) by simp
    from Cons.IH[OF this run] show ?thesis .
  qed
qed

lemma closureLoop_returns:
  assumes "length c = length steps"
  shows "\<exists>c' r' p. closureLoop steps c r passes = Some (c', r', p)
           \<and> length c' = length steps \<and> p \<le> passes + unmarked c + 1"
  using assms
proof (induction "unmarked c" arbitrary: c r passes rule: less_induct)
  case less
  obtain c1 r1 added where scan: "scanLoop 0 steps (c, r, 0) = (c1, r1, added)"
    by (cases "scanLoop 0 steps (c, r, 0)")
  have "0 + length steps \<le> length c" using less.prems by simp
  from scanLoop_count[OF this scan]
  have len1: "length c1 = length c" and cnt: "unmarked c1 + added = unmarked c" by simp_all
  show ?case
  proof (cases "added = 0")
    case True
    have "closureLoop steps c r passes = Some (c1, r1, Suc passes)"
      by (subst closureLoop.simps) (simp add: scan True)
    then show ?thesis using len1 less.prems by simp
  next
    case False
    have eq: "closureLoop steps c r passes = closureLoop steps c1 r1 (Suc passes)"
      by (subst closureLoop.simps) (simp add: scan False)
    have lt: "unmarked c1 < unmarked c" using cnt False by simp
    have "length c1 = length steps" using len1 less.prems by simp
    from less.hyps[OF lt this, of r1 "Suc passes"] obtain c' r' p where
      "closureLoop steps c1 r1 (Suc passes) = Some (c', r', p)" "length c' = length steps"
      "p \<le> Suc passes + unmarked c1 + 1" by blast
    then show ?thesis using eq lt by auto
  qed
qed

lemma unmarked_less:
  "True \<in> set c \<Longrightarrow> unmarked c < length c"
  unfolding unmarked_def by (rule length_filter_less[of True]) simp_all

lemma BuildPartialGraph_total:
  "\<exists>res. BuildPartialGraph steps names = Some res"
proof -
  obtain c r ns where seed: "seedLoop 0 steps (replicate (length steps) False, [], names) = (c, r, ns)"
    by (cases "seedLoop 0 steps (replicate (length steps) False, [], names)")
  have "length c = length steps"
    using seedLoop_length[of 0 steps "replicate (length steps) False" "[]" names] seed by simp
  from closureLoop_returns[OF this, of r 0] obtain c' r' p where
    "closureLoop steps c r 0 = Some (c', r', p)" by blast
  then show ?thesis
    by (simp add: BuildPartialGraph_def seed)
qed


section \<open>The graph that BuildGraph builds\<close>

lemma BuildGraph_fst_snd:
  "BuildGraph steps = (fst (BuildGraph steps), snd (BuildGraph steps))"
  by simp

lemma BuildGraph_Children_set:
  assumes "k < length steps"
  shows "set (Children (fst (BuildGraph steps) ! k)) = {i. i < length steps \<and> dependsOn (steps ! i) (steps ! k)}"
  using BuildGraph_props(3)[OF BuildGraph_fst_snd assms] by auto

lemma BuildGraph_roots_set:
  "set (snd (BuildGraph steps)) =
     {i. i < length steps \<and> \<not> (\<exists>other<length steps. dependsOn (steps ! i) (steps ! other))}"
  using BuildGraph_props(4)[OF BuildGraph_fst_snd, of steps] by auto

lemma childEdges_BuildGraph:
  "childEdges (fst (BuildGraph steps)) = dependencyEdges steps"
  unfolding childEdges_def dependencyEdges_def
  using BuildGraph_props(1)[OF BuildGraph_fst_snd, of steps] BuildGraph_Children_set[of _ steps]
  by auto

lemma finite_dependencyEdges: "finite (dependencyEdges steps)"
proof -
  have "dependencyEdges steps \<subseteq> {..<length steps} \<times> {..<length steps}"
    by (auto simp: dependencyEdges_def)
  then show ?thesis by (rule finite_subset) simp
qed

lemma acyclic_inForest:
  assumes "acyclic (dependencyEdges steps)"
  shows "k < length steps \<Longrightarrow> inForest (BuildGraph steps) k"
proof -
  have "wf (dependencyEdges steps)"
    using finite_dependencyEdges assms by (rule finite_acyclic_wf)
  then show "k < length steps \<Longrightarrow> inForest (BuildGraph steps) k"
  proof (induction k rule: wf_induct_rule)
    case (less k)
    show ?case
    proof (cases "\<exists>other<length steps. dependsOn (steps ! k) (steps ! other)")
      case False
      with less.prems have "k \<in> set (snd (BuildGraph steps))"
        by (simp add: BuildGraph_roots_set)
      then show ?thesis unfolding inForest_def by blast
    next
      case True
      then obtain other where o: "other < length steps" "dependsOn (steps ! k) (steps ! other)"
        by blast
      with less.prems have e: "(other, k) \<in> dependencyEdges steps"
        by (simp add: dependencyEdges_def)
      from less.IH[OF e o(1)] obtain r where
        r: "r \<in> set (snd (BuildGraph steps))" "(r, other) \<in> (childEdges (fst (BuildGraph steps)))\<^sup>*"
        unfolding inForest_def by blast
      from e have "(other, k) \<in> childEdges (fst (BuildGraph steps))"
        by (simp add: childEdges_BuildGraph)
      with r(2) have "(r, k) \<in> (childEdges (fst (BuildGraph steps)))\<^sup>*" by simp
      with r(1) show ?thesis unfolding inForest_def by blast
    qed
  qed
qed

text \<open>
  The node of a step that creates a link is the parent of the node of every step that
  requires a matching link; it is its ancestor in the returned forest where a returned
  root reaches it, as is the case for every step when the dependencies have no cycle.
\<close>

lemma BuildGraph_child_of_creator:
  assumes "a < length steps" and "b < length steps"
    and "createsFor (steps ! a) (steps ! b)"
  shows "b \<in> set (Children (fst (BuildGraph steps) ! a))
    \<and> (inForest (BuildGraph steps) a \<longrightarrow> ancestorInForest (BuildGraph steps) a b)
    \<and> (acyclic (dependencyEdges steps) \<longrightarrow> ancestorInForest (BuildGraph steps) a b)"
proof -
  have dep: "dependsOn (steps ! b) (steps ! a)"
    using assms(3) by (simp add: createsFor_dependsOn)
  have child: "b \<in> set (Children (fst (BuildGraph steps) ! a))"
    using assms(1,2) dep by (simp add: BuildGraph_Children_set)
  have "(a, b) \<in> childEdges (fst (BuildGraph steps))"
    using assms(1,2) dep by (simp add: childEdges_BuildGraph dependencyEdges_def)
  then have tr: "(a, b) \<in> (childEdges (fst (BuildGraph steps)))\<^sup>+" by blast
  have 1: "inForest (BuildGraph steps) a \<longrightarrow> ancestorInForest (BuildGraph steps) a b"
    using tr by (simp add: ancestorInForest_def)
  have 2: "acyclic (dependencyEdges steps) \<longrightarrow> ancestorInForest (BuildGraph steps) a b"
    using tr acyclic_inForest[OF _ assms(1)] by (simp add: ancestorInForest_def)
  from child 1 2 show ?thesis by blast
qed

text \<open>The children of every node and the root list, from the dependencies among the input steps.\<close>

lemma BuildGraph_children_and_roots:
  "length (fst (BuildGraph steps)) = length steps
   \<and> (\<forall>k<length steps.
        Step (fst (BuildGraph steps) ! k) = steps ! k
        \<and> Children (fst (BuildGraph steps) ! k)
            = filter (\<lambda>i. dependsOn (steps ! i) (steps ! k)) [0..<length steps])
   \<and> snd (BuildGraph steps)
        = filter (\<lambda>i. \<not> (\<exists>other<length steps. dependsOn (steps ! i) (steps ! other))) [0..<length steps]"
  using BuildGraph_props[OF BuildGraph_fst_snd[of steps]] by simp

section \<open>Errors and seeds of BuildPartialGraph\<close>

lemma leftoverNames_fold:
  "leftoverNames steps names = fold (\<lambda>step ns. remove1 (Name step) ns) steps names"
  by (simp add: leftoverNames_def seedLoop_names)

lemma seedLoop_split:
  "seedLoop 0 steps (replicate (length steps) False, [], names) =
     (fst (seedLoop 0 steps (replicate (length steps) False, [], names)),
      fst (snd (seedLoop 0 steps (replicate (length steps) False, [], names))),
      leftoverNames steps names)"
  by (simp add: leftoverNames_def)

lemma BuildPartialGraph_leftover:
  "leftoverNames steps names \<noteq> [] \<Longrightarrow>
   BuildPartialGraph steps names =
     Some (Inl (Errorf (notFoundPrefix @ Join (leftoverNames steps names) '', '')))"
proof -
  assume l: "leftoverNames steps names \<noteq> []"
  have "names \<noteq> []"
  proof
    assume "names = []"
    then have "leftoverNames steps names = []"
      using fold_remove1_mset[of steps "[]"] by (simp add: leftoverNames_fold)
    with l show False by simp
  qed
  with l show ?thesis
    by (subst BuildPartialGraph_def, subst seedLoop_split) simp
qed

lemma BuildPartialGraph_no_leftover:
  assumes "leftoverNames steps names = []"
  shows "\<exists>g. BuildPartialGraph steps names = Some (Inr g)"
proof (cases "names = []")
  case True
  then show ?thesis by (simp add: BuildPartialGraph_def)
next
  case False
  let ?c = "fst (seedLoop 0 steps (replicate (length steps) False, [], names))"
  let ?r = "fst (snd (seedLoop 0 steps (replicate (length steps) False, [], names)))"
  have "length ?c = length steps"
    using seedLoop_length[of 0 steps "replicate (length steps) False" "[]" names] by simp
  from closureLoop_returns[OF this, of ?r 0] obtain c' r' p where
    "closureLoop steps ?c ?r 0 = Some (c', r', p)" by blast
  with False assms show ?thesis
    by (subst BuildPartialGraph_def, subst seedLoop_split) simp
qed



section \<open>The scenario steps\<close>

lemma stepX_sel [simp]:
  "Name (stepX L1) = ''X''" "Requires (stepX L1) = []" "Creates (stepX L1) = [L1]"
  by (simp_all add: stepX_def)

lemma stepY_sel [simp]:
  "Name (stepY L1 L2) = ''Y''" "Requires (stepY L1 L2) = [L1]" "Creates (stepY L1 L2) = [L2]"
  by (simp_all add: stepY_def)

lemma stepZ_sel [simp]:
  "Name (stepZ L1 L3) = ''Z''" "Requires (stepZ L1 L3) = [L1]" "Creates (stepZ L1 L3) = [L3]"
  by (simp_all add: stepZ_def)

section \<open>The claims\<close>


text \<open>
  Claim C7. For links built by the five constructors, \<open>Matches\<close> is false between links
  of different kinds, every link matches itself, \<open>Matches\<close> is symmetric, two external
  links match exactly when their (namespace, name, tag) triples are equal, two internal
  links exactly when their references are equal, and the three markers match themselves.
\<close>

theorem Matches_kinds_refl_sym:
  "(kind l1 \<noteq> kind l2 \<longrightarrow> \<not> Matches l1 l2)
   \<and> Matches l1 l1
   \<and> (Matches l1 l2 \<longleftrightarrow> Matches l2 l1)
   \<and> (Matches (ExternalImageLink ref1) (ExternalImageLink ref2) \<longleftrightarrow>
        (RefNamespace ref1, RefName ref1, RefTag ref1) = (RefNamespace ref2, RefName ref2, RefTag ref2))
   \<and> (Matches (InternalImageLink t1) (InternalImageLink t2) \<longleftrightarrow> t1 = t2)
   \<and> Matches ImagesReadyLink ImagesReadyLink
   \<and> Matches RPMRepoLink RPMRepoLink
   \<and> Matches ReleaseImagesLink ReleaseImagesLink"
proof -
  have "kind l1 \<noteq> kind l2 \<longrightarrow> \<not> Matches l1 l2" using Matches_kind by blast
  moreover have "Matches l1 l2 \<longleftrightarrow> Matches l2 l1" by (rule Matches_sym)
  moreover have "Matches (ExternalImageLink ref1) (ExternalImageLink ref2) \<longleftrightarrow>
        (RefNamespace ref1, RefName ref1, RefTag ref1) = (RefNamespace ref2, RefName ref2, RefTag ref2)"
    by (auto simp: ExternalImageLink_def)
  moreover have "Matches (InternalImageLink t1) (InternalImageLink t2) \<longleftrightarrow> t1 = t2"
    by (simp add: InternalImageLink_def)
  ultimately show ?thesis by simp
qed

text \<open>Claim C7 at concrete links: a marker against an internal link, and external links that agree or differ in the tag.\<close>

theorem Matches_kinds_refl_sym_witness:
  "kind RPMRepoLink \<noteq> kind (InternalImageLink ''src'')
   \<and> \<not> Matches RPMRepoLink (InternalImageLink ''src'')
   \<and> \<not> Matches (InternalImageLink ''src'') RPMRepoLink
   \<and> Matches (ExternalImageLink \<lparr>RefNamespace = ''ns'', RefName = ''img'', RefTag = ''1''\<rparr>)
        (ExternalImageLink \<lparr>RefNamespace = ''ns'', RefName = ''img'', RefTag = ''1''\<rparr>)
   \<and> \<not> Matches (ExternalImageLink \<lparr>RefNamespace = ''ns'', RefName = ''img'', RefTag = ''1''\<rparr>)
        (ExternalImageLink \<lparr>RefNamespace = ''ns'', RefName = ''img'', RefTag = ''2''\<rparr>)"
proof -
  have k: "kind RPMRepoLink \<noteq> kind (InternalImageLink ''src'')"
    by (simp add: RPMRepoLink_def InternalImageLink_def)
  note a = Matches_kinds_refl_sym [of RPMRepoLink "InternalImageLink ''src''"
      "\<lparr>RefNamespace = ''ns'', RefName = ''img'', RefTag = ''1''\<rparr>"
      "\<lparr>RefNamespace = ''ns'', RefName = ''img'', RefTag = ''1''\<rparr>"]
  note b = Matches_kinds_refl_sym [of RPMRepoLink "InternalImageLink ''src''"
      "\<lparr>RefNamespace = ''ns'', RefName = ''img'', RefTag = ''1''\<rparr>"
      "\<lparr>RefNamespace = ''ns'', RefName = ''img'', RefTag = ''2''\<rparr>"]
  from a k have "\<not> Matches RPMRepoLink (InternalImageLink ''src'')" by blast
  moreover from a this have "\<not> Matches (InternalImageLink ''src'') RPMRepoLink" by blast
  moreover from a have "Matches (ExternalImageLink \<lparr>RefNamespace = ''ns'', RefName = ''img'', RefTag = ''1''\<rparr>)
        (ExternalImageLink \<lparr>RefNamespace = ''ns'', RefName = ''img'', RefTag = ''1''\<rparr>)" by simp
  moreover from b have "\<not> Matches (ExternalImageLink \<lparr>RefNamespace = ''ns'', RefName = ''img'', RefTag = ''1''\<rparr>)
        (ExternalImageLink \<lparr>RefNamespace = ''ns'', RefName = ''img'', RefTag = ''2''\<rparr>)" by simp
  ultimately show ?thesis using k by blast
qed

text \<open>
  Claim C4. With no names, \<open>BuildPartialGraph\<close> returns, without error, what
  \<open>BuildGraph\<close> returns for the same steps.
\<close>

theorem BuildPartialGraph_no_names:
  "BuildPartialGraph steps [] = Some (Inr (BuildGraph steps))"
  by (simp add: BuildPartialGraph_def)

text \<open>Claim C4 at two concrete steps.\<close>

theorem BuildPartialGraph_no_names_witness:
  "BuildPartialGraph [stepX RPMRepoLink, stepY RPMRepoLink ImagesReadyLink] []
     = Some (Inr ([\<lparr>Step = stepX RPMRepoLink, Children = [1]\<rparr>,
                   \<lparr>Step = stepY RPMRepoLink ImagesReadyLink, Children = []\<rparr>], [0]))"
proof -
  have "BuildGraph [stepX RPMRepoLink, stepY RPMRepoLink ImagesReadyLink]
     = ([\<lparr>Step = stepX RPMRepoLink, Children = [1]\<rparr>,
         \<lparr>Step = stepY RPMRepoLink ImagesReadyLink, Children = []\<rparr>], [0])"
    by (simp add: BuildGraph_def addToNode_def upt_rec RPMRepoLink_def ImagesReadyLink_def)
  with BuildPartialGraph_no_names [of "[stepX RPMRepoLink, stepY RPMRepoLink ImagesReadyLink]"]
  show ?thesis by simp
qed

text \<open>
  Claim C2. In the scenario \<open>X\<close>, \<open>Y\<close>, \<open>Z\<close>, where \<open>L1\<close> matches neither \<open>L2\<close> nor
  \<open>L3\<close>, \<open>BuildGraph\<close> returns the single root \<open>X\<close> with the children \<open>Y\<close> and \<open>Z\<close>, both
  leaves. For the names \<open>[Z]\<close> the seeding loop marks \<open>Z\<close>, the closure adds \<open>X\<close> and
  nothing else in two passes, the targeted steps are \<open>X\<close> and \<open>Z\<close>, and
  \<open>BuildPartialGraph\<close> returns the root \<open>X\<close> with the single child \<open>Z\<close>.
\<close>

theorem scenario_XYZ:
  assumes "\<not> Matches L1 L2" and "\<not> Matches L1 L3"
  shows "BuildGraph [stepX L1, stepY L1 L2, stepZ L1 L3]
           = ([\<lparr>Step = stepX L1, Children = [1, 2]\<rparr>,
               \<lparr>Step = stepY L1 L2, Children = []\<rparr>,
               \<lparr>Step = stepZ L1 L3, Children = []\<rparr>], [0])
    \<and> seedLoop 0 [stepX L1, stepY L1 L2, stepZ L1 L3] (replicate 3 False, [], [''Z''])
           = ([False, False, True], [L1], [])
    \<and> closureLoop [stepX L1, stepY L1 L2, stepZ L1 L3] [False, False, True] [L1] 0
           = Some ([True, False, True], [L1], 2)
    \<and> targetedSteps [stepX L1, stepY L1 L2, stepZ L1 L3] [True, False, True]
           = [stepX L1, stepZ L1 L3]
    \<and> BuildPartialGraph [stepX L1, stepY L1 L2, stepZ L1 L3] [''Z'']
           = Some (Inr ([\<lparr>Step = stepX L1, Children = [1]\<rparr>,
                         \<lparr>Step = stepZ L1 L3, Children = []\<rparr>], [0]))"
proof -
  have g: "BuildGraph [stepX L1, stepY L1 L2, stepZ L1 L3]
           = ([\<lparr>Step = stepX L1, Children = [1, 2]\<rparr>,
               \<lparr>Step = stepY L1 L2, Children = []\<rparr>,
               \<lparr>Step = stepZ L1 L3, Children = []\<rparr>], [0])"
    using assms by (simp add: BuildGraph_def addToNode_def upt_rec)
  have s: "seedLoop 0 [stepX L1, stepY L1 L2, stepZ L1 L3] (replicate 3 False, [], [''Z''])
           = ([False, False, True], [L1], [])"
    by (simp add: numeral_3_eq_3)
  have c2: "closureLoop [stepX L1, stepY L1 L2, stepZ L1 L3] [True, False, True] [L1] (Suc 0)
           = Some ([True, False, True], [L1], 2)"
    using assms by (subst closureLoop.simps) simp
  have c: "closureLoop [stepX L1, stepY L1 L2, stepZ L1 L3] [False, False, True] [L1] 0
           = Some ([True, False, True], [L1], 2)"
    using assms by (subst closureLoop.simps) (simp add: c2)
  have t: "targetedSteps [stepX L1, stepY L1 L2, stepZ L1 L3] [True, False, True]
           = [stepX L1, stepZ L1 L3]"
    by (simp add: targetedSteps_def upt_rec)
  have g2: "BuildGraph [stepX L1, stepZ L1 L3]
           = ([\<lparr>Step = stepX L1, Children = [1]\<rparr>, \<lparr>Step = stepZ L1 L3, Children = []\<rparr>], [0])"
    using assms by (simp add: BuildGraph_def addToNode_def upt_rec)
  have p: "BuildPartialGraph [stepX L1, stepY L1 L2, stepZ L1 L3] [''Z'']
           = Some (Inr ([\<lparr>Step = stepX L1, Children = [1]\<rparr>,
                         \<lparr>Step = stepZ L1 L3, Children = []\<rparr>], [0]))"
    using s by (simp add: BuildPartialGraph_def c t g2 numeral_3_eq_3)
  from g s c t p show ?thesis by simp
qed

text \<open>Claim C2 with the three marker links for \<open>L1\<close>, \<open>L2\<close>, \<open>L3\<close>.\<close>

theorem scenario_XYZ_witness:
  "\<not> Matches RPMRepoLink ImagesReadyLink \<and> \<not> Matches RPMRepoLink ReleaseImagesLink
   \<and> BuildGraph [stepX RPMRepoLink, stepY RPMRepoLink ImagesReadyLink, stepZ RPMRepoLink ReleaseImagesLink]
           = ([\<lparr>Step = stepX RPMRepoLink, Children = [1, 2]\<rparr>,
               \<lparr>Step = stepY RPMRepoLink ImagesReadyLink, Children = []\<rparr>,
               \<lparr>Step = stepZ RPMRepoLink ReleaseImagesLink, Children = []\<rparr>], [0])
   \<and> BuildPartialGraph [stepX RPMRepoLink, stepY RPMRepoLink ImagesReadyLink, stepZ RPMRepoLink ReleaseImagesLink] [''Z'']
           = Some (Inr ([\<lparr>Step = stepX RPMRepoLink, Children = [1]\<rparr>,
                         \<lparr>Step = stepZ RPMRepoLink ReleaseImagesLink, Children = []\<rparr>], [0]))"
proof -
  have a: "\<not> Matches RPMRepoLink ImagesReadyLink"
    by (simp add: RPMRepoLink_def ImagesReadyLink_def)
  have b: "\<not> Matches RPMRepoLink ReleaseImagesLink"
    by (simp add: RPMRepoLink_def ReleaseImagesLink_def)
  from scenario_XYZ [OF a b] a b show ?thesis by blast
qed

text \<open>
  Claim C1 does not hold of the code where the creating step lies on a dependency cycle.
  The step \<open>src\<close> creates the link that \<open>bin\<close> requires and \<open>bin\<close> creates the link that
  \<open>src\<close> requires: \<open>BuildGraph\<close> makes each node the child of the other and returns no
  root, so the node of \<open>src\<close> is not in the returned forest and is not an ancestor of
  the node of \<open>bin\<close> there. The comment on \<open>BuildGraph\<close> promises graphs that include all
  steps given.
\<close>

theorem BuildGraph_cycle_drops_creator:
  "createsFor \<lparr>Name = ''src'', Requires = [internalImageLink ''bin''], Creates = [internalImageLink ''src'']\<rparr>
              \<lparr>Name = ''bin'', Requires = [internalImageLink ''src''], Creates = [internalImageLink ''bin'']\<rparr>
   \<and> BuildGraph [\<lparr>Name = ''src'', Requires = [internalImageLink ''bin''], Creates = [internalImageLink ''src'']\<rparr>,
                  \<lparr>Name = ''bin'', Requires = [internalImageLink ''src''], Creates = [internalImageLink ''bin'']\<rparr>]
       = ([\<lparr>Step = \<lparr>Name = ''src'', Requires = [internalImageLink ''bin''], Creates = [internalImageLink ''src'']\<rparr>,
            Children = [1]\<rparr>,
           \<lparr>Step = \<lparr>Name = ''bin'', Requires = [internalImageLink ''src''], Creates = [internalImageLink ''bin'']\<rparr>,
            Children = [0]\<rparr>], [])
   \<and> \<not> inForest
         (BuildGraph [\<lparr>Name = ''src'', Requires = [internalImageLink ''bin''], Creates = [internalImageLink ''src'']\<rparr>,
                      \<lparr>Name = ''bin'', Requires = [internalImageLink ''src''], Creates = [internalImageLink ''bin'']\<rparr>]) 0
   \<and> \<not> ancestorInForest
         (BuildGraph [\<lparr>Name = ''src'', Requires = [internalImageLink ''bin''], Creates = [internalImageLink ''src'']\<rparr>,
                      \<lparr>Name = ''bin'', Requires = [internalImageLink ''src''], Creates = [internalImageLink ''bin'']\<rparr>]) 0 1"
proof -
  let ?A = "\<lparr>Name = ''src'', Requires = [internalImageLink ''bin''], Creates = [internalImageLink ''src'']\<rparr>"
  let ?B = "\<lparr>Name = ''bin'', Requires = [internalImageLink ''src''], Creates = [internalImageLink ''bin'']\<rparr>"
  have c: "createsFor ?A ?B" by (simp add: createsFor_def)
  have g: "BuildGraph [?A, ?B] = ([\<lparr>Step = ?A, Children = [1]\<rparr>, \<lparr>Step = ?B, Children = [0]\<rparr>], [])"
    by (simp add: BuildGraph_def addToNode_def upt_rec)
  have f: "\<not> inForest (BuildGraph [?A, ?B]) 0"
    unfolding g by (simp add: inForest_def)
  then have n: "\<not> ancestorInForest (BuildGraph [?A, ?B]) 0 1"
    by (simp add: ancestorInForest_def)
  from c g f n show ?thesis by blast
qed

text \<open>
  Claim C3 does not hold of the code: the loop over \<open>other\<close> has no test that \<open>other\<close> is
  another node than \<open>node\<close>. For a single step that requires the link it creates,
  \<open>BuildGraph\<close> makes the node a child of itself and returns no root, so the step is in
  no returned graph. The comment on \<open>BuildGraph\<close> promises graphs that include all steps
  given.
\<close>

theorem BuildGraph_self_match_drops_step:
  "BuildGraph [\<lparr>Name = ''S'', Requires = [rpmRepoLink], Creates = [rpmRepoLink]\<rparr>]
     = ([\<lparr>Step = \<lparr>Name = ''S'', Requires = [rpmRepoLink], Creates = [rpmRepoLink]\<rparr>, Children = [0]\<rparr>], [])
   \<and> 0 \<in> set (Children (fst (BuildGraph [\<lparr>Name = ''S'', Requires = [rpmRepoLink], Creates = [rpmRepoLink]\<rparr>]) ! 0))
   \<and> 0 \<notin> set (snd (BuildGraph [\<lparr>Name = ''S'', Requires = [rpmRepoLink], Creates = [rpmRepoLink]\<rparr>]))
   \<and> \<not> inForest (BuildGraph [\<lparr>Name = ''S'', Requires = [rpmRepoLink], Creates = [rpmRepoLink]\<rparr>]) 0"
proof -
  let ?S = "\<lparr>Name = ''S'', Requires = [rpmRepoLink], Creates = [rpmRepoLink]\<rparr>"
  have g: "BuildGraph [?S] = ([\<lparr>Step = ?S, Children = [0]\<rparr>], [])"
    by (simp add: BuildGraph_def addToNode_def)
  show ?thesis unfolding g by (simp add: inForest_def)
qed

text \<open>
  Claim C5. \<open>BuildPartialGraph\<close> returns an error exactly when the seeding loop leaves a
  name unconsumed; the error message is the fixed prefix followed by all the leftover
  names joined with a comma and a space; otherwise a graph is returned. The leftover
  names are the requested names, in their order, less one occurrence for each step of
  that name.
\<close>

theorem BuildPartialGraph_error_iff_leftover:
  "((\<exists>e. BuildPartialGraph steps names = Some (Inl e)) \<longleftrightarrow> leftoverNames steps names \<noteq> [])
   \<and> (leftoverNames steps names \<noteq> [] \<longrightarrow>
        BuildPartialGraph steps names
          = Some (Inl (Errorf (notFoundPrefix @ Join (leftoverNames steps names) '', ''))))
   \<and> (leftoverNames steps names = [] \<longrightarrow> (\<exists>g. BuildPartialGraph steps names = Some (Inr g)))
   \<and> mset (leftoverNames steps names) = mset names - mset (map Name steps)
   \<and> subseq (leftoverNames steps names) names"
proof -
  have a: "leftoverNames steps names \<noteq> [] \<longrightarrow>
        BuildPartialGraph steps names
          = Some (Inl (Errorf (notFoundPrefix @ Join (leftoverNames steps names) '', '')))"
    using BuildPartialGraph_leftover by blast
  have b: "leftoverNames steps names = [] \<longrightarrow> (\<exists>g. BuildPartialGraph steps names = Some (Inr g))"
    using BuildPartialGraph_no_leftover by blast
  have c: "(\<exists>e. BuildPartialGraph steps names = Some (Inl e)) \<longleftrightarrow> leftoverNames steps names \<noteq> []"
    using a b by auto
  have d: "mset (leftoverNames steps names) = mset names - mset (map Name steps)"
    by (simp add: leftoverNames_fold fold_remove1_mset)
  have e: "subseq (leftoverNames steps names) names"
    by (simp add: leftoverNames_fold fold_remove1_subseq)
  from a b c d e show ?thesis by blast
qed

text \<open>Claim C5 at two steps: an unknown, a repeated and another unknown name are reported together; two known names give a graph.\<close>

theorem BuildPartialGraph_error_iff_leftover_witness:
  "leftoverNames [stepX RPMRepoLink, stepZ RPMRepoLink ReleaseImagesLink] [''Z'', ''Q'', ''Z'', ''W'']
     = [''Q'', ''Z'', ''W'']
   \<and> BuildPartialGraph [stepX RPMRepoLink, stepZ RPMRepoLink ReleaseImagesLink] [''Z'', ''Q'', ''Z'', ''W'']
     = Some (Inl (Errorf
         ''the following names were not found in the config or were duplicates: Q, Z, W''))
   \<and> leftoverNames [stepX RPMRepoLink, stepZ RPMRepoLink ReleaseImagesLink] [''Z'', ''X''] = []
   \<and> (\<exists>g. BuildPartialGraph [stepX RPMRepoLink, stepZ RPMRepoLink ReleaseImagesLink] [''Z'', ''X'']
          = Some (Inr g))"
proof -
  let ?steps = "[stepX RPMRepoLink, stepZ RPMRepoLink ReleaseImagesLink]"
  have l: "leftoverNames ?steps [''Z'', ''Q'', ''Z'', ''W''] = [''Q'', ''Z'', ''W'']"
    by (simp add: leftoverNames_def)
  have m: "leftoverNames ?steps [''Z'', ''X''] = []"
    by (simp add: leftoverNames_def)
  from BuildPartialGraph_error_iff_leftover [of ?steps "[''Z'', ''Q'', ''Z'', ''W'']"] l
  have e: "BuildPartialGraph ?steps [''Z'', ''Q'', ''Z'', ''W'']
     = Some (Inl (Errorf
         ''the following names were not found in the config or were duplicates: Q, Z, W''))"
    by (simp add: notFoundPrefix_def)
  from BuildPartialGraph_error_iff_leftover [of ?steps "[''Z'', ''X'']"] m
  have g: "\<exists>g. BuildPartialGraph ?steps [''Z'', ''X''] = Some (Inr g)"
    by blast
  from l m e g show ?thesis by blast
qed




text \<open>
  Claim C8 does not hold of the code: for a step whose name is the empty string and the
  names list holding the empty string, the seeding loop matches the two, and
  \<open>BuildPartialGraph\<close> returns the graph of that step alone, without error.
\<close>

theorem BuildPartialGraph_targets_unnamed_step:
  "BuildPartialGraph
     [\<lparr>Name = '''', Requires = [ExternalImageLink \<lparr>RefNamespace = ''openshift'', RefName = ''origin'', RefTag = ''base''\<rparr>],
        Creates = [InternalImageLink ''base'']\<rparr>,
      \<lparr>Name = ''src'', Requires = [], Creates = [InternalImageLink ''src'']\<rparr>]
     ['''']
   = Some (Inr ([\<lparr>Step = \<lparr>Name = '''', Requires = [ExternalImageLink \<lparr>RefNamespace = ''openshift'', RefName = ''origin'', RefTag = ''base''\<rparr>],
                             Creates = [InternalImageLink ''base'']\<rparr>, Children = []\<rparr>], [0]))"
proof -
  let ?U = "\<lparr>Name = '''', Requires = [ExternalImageLink \<lparr>RefNamespace = ''openshift'', RefName = ''origin'', RefTag = ''base''\<rparr>],
        Creates = [InternalImageLink ''base'']\<rparr>"
  let ?T = "\<lparr>Name = ''src'', Requires = [], Creates = [InternalImageLink ''src'']\<rparr>"
  let ?req = "[ExternalImageLink \<lparr>RefNamespace = ''openshift'', RefName = ''origin'', RefTag = ''base''\<rparr>]"
  have s: "seedLoop 0 [?U, ?T] (replicate (length [?U, ?T]) False, [], ['''']) = ([True, False], ?req, [])"
    by simp
  have c: "closureLoop [?U, ?T] [True, False] ?req 0 = Some ([True, False], ?req, Suc 0)"
    by (subst closureLoop.simps) (simp add: ExternalImageLink_def InternalImageLink_def)
  have t: "targetedSteps [?U, ?T] [True, False] = [?U]"
    by (simp add: targetedSteps_def upt_rec)
  have g: "BuildGraph [?U] = ([\<lparr>Step = ?U, Children = []\<rparr>], [0])"
    by (simp add: BuildGraph_def addToNode_def ExternalImageLink_def InternalImageLink_def)
  show ?thesis
    unfolding BuildPartialGraph_def s by (simp add: c t g)
qed

text \<open>
  Claim C9. For two steps each requiring the link the other creates, \<open>BuildGraph\<close>
  returns no root, and no node is in the returned forest.
\<close>

theorem BuildGraph_cycle_no_roots:
  "snd (BuildGraph [\<lparr>Name = na, Requires = [l1], Creates = [l2]\<rparr>,
                    \<lparr>Name = nb, Requires = [l2], Creates = [l1]\<rparr>]) = []
   \<and> \<not> inForest (BuildGraph [\<lparr>Name = na, Requires = [l1], Creates = [l2]\<rparr>,
                              \<lparr>Name = nb, Requires = [l2], Creates = [l1]\<rparr>]) k"
proof -
  let ?steps = "[\<lparr>Name = na, Requires = [l1], Creates = [l2]\<rparr>, \<lparr>Name = nb, Requires = [l2], Creates = [l1]\<rparr>]"
  have "dependsOn (?steps ! 0) (?steps ! 1)" "dependsOn (?steps ! 1) (?steps ! 0)"
    by (simp_all add: dependsOn_def)
  then have "\<And>i. i < length ?steps \<Longrightarrow> \<exists>other<length ?steps. dependsOn (?steps ! i) (?steps ! other)"
    by (metis One_nat_def length_Cons less_2_cases list.size(3) numeral_2_eq_2 lessI zero_less_Suc)
  then have "set (snd (BuildGraph ?steps)) = {}"
    unfolding BuildGraph_roots_set by blast
  then have "snd (BuildGraph ?steps) = []" by simp
  then show ?thesis by (simp add: inForest_def)
qed

text \<open>Claim C9 with two marker links: the nodes are children of each other and the root list is empty.\<close>

theorem BuildGraph_cycle_no_roots_witness:
  "BuildGraph [\<lparr>Name = ''A'', Requires = [rpmRepoLink], Creates = [imagesReadyLink]\<rparr>,
               \<lparr>Name = ''B'', Requires = [imagesReadyLink], Creates = [rpmRepoLink]\<rparr>]
     = ([\<lparr>Step = \<lparr>Name = ''A'', Requires = [rpmRepoLink], Creates = [imagesReadyLink]\<rparr>, Children = [1]\<rparr>,
         \<lparr>Step = \<lparr>Name = ''B'', Requires = [imagesReadyLink], Creates = [rpmRepoLink]\<rparr>, Children = [0]\<rparr>], [])"
proof -
  let ?steps = "[\<lparr>Name = ''A'', Requires = [rpmRepoLink], Creates = [imagesReadyLink]\<rparr>,
               \<lparr>Name = ''B'', Requires = [imagesReadyLink], Creates = [rpmRepoLink]\<rparr>]"
  have "fst (BuildGraph ?steps) = [\<lparr>Step = ?steps ! 0, Children = [1]\<rparr>, \<lparr>Step = ?steps ! 1, Children = [0]\<rparr>]"
    by (simp add: BuildGraph_def addToNode_def upt_rec)
  moreover have "snd (BuildGraph ?steps) = []"
    using BuildGraph_cycle_no_roots [of "''A''" rpmRepoLink imagesReadyLink "''B''" 0] by blast
  ultimately show ?thesis by (simp add: prod_eq_iff)
qed

text \<open>
  Claim C10. The closure loop returns for every input whose \<open>candidates\<close> has one flag
  per step, after at most one pass more than there are unmarked steps; where
  \<open>BuildPartialGraph\<close> enters it (the names are not empty and the seeding loop consumed
  them all) it returns after at most as many passes as there are steps. Each pass marks
  as many unmarked steps as it counts in \<open>added\<close>.
\<close>

theorem closureLoop_terminates_within_steps:
  "(length candidates = length steps \<longrightarrow>
      (\<exists>c r p. closureLoop steps candidates required 0 = Some (c, r, p)
                \<and> p \<le> unmarked candidates + 1))
   \<and> (names \<noteq> [] \<and> seedLoop 0 steps (replicate (length steps) False, [], names) = (candidates, required, [])
        \<longrightarrow> (\<exists>c r p. closureLoop steps candidates required 0 = Some (c, r, p) \<and> p \<le> length steps))
   \<and> (length candidates = length steps \<and> scanLoop 0 steps (candidates, required, 0) = (c', r', added)
        \<longrightarrow> unmarked c' + added = unmarked candidates)"
proof -
  have 1: "length candidates = length steps \<longrightarrow>
      (\<exists>c r p. closureLoop steps candidates required 0 = Some (c, r, p)
                \<and> p \<le> unmarked candidates + 1)"
    using closureLoop_returns[of candidates steps required 0] by auto
  have 2: "names \<noteq> [] \<and> seedLoop 0 steps (replicate (length steps) False, [], names) = (candidates, required, [])
        \<longrightarrow> (\<exists>c r p. closureLoop steps candidates required 0 = Some (c, r, p) \<and> p \<le> length steps)"
  proof
    assume h: "names \<noteq> [] \<and> seedLoop 0 steps (replicate (length steps) False, [], names) = (candidates, required, [])"
    have len: "length candidates = length steps"
      using seedLoop_length[of 0 steps "replicate (length steps) False" "[]" names] h by simp
    have "True \<in> set (fst (seedLoop 0 steps (replicate (length steps) False, [], names)))"
      by (rule seedLoop_marks) (use h in auto)
    then have "True \<in> set candidates" using h by simp
    then have "unmarked candidates < length steps"
      using unmarked_less[of candidates] len by simp
    with 1 len show "\<exists>c r p. closureLoop steps candidates required 0 = Some (c, r, p) \<and> p \<le> length steps"
      by fastforce
  qed
  have 3: "length candidates = length steps \<and> scanLoop 0 steps (candidates, required, 0) = (c', r', added)
        \<longrightarrow> unmarked c' + added = unmarked candidates"
    using scanLoop_count[of 0 steps candidates required 0 c' r' added] by auto
  from 1 2 3 show ?thesis by blast
qed

text \<open>Claim C10 in the scenario with the names \<open>[Z]\<close>.\<close>

theorem closureLoop_terminates_within_steps_witness:
  "[''Z''] \<noteq> []
   \<and> seedLoop 0 [stepX RPMRepoLink, stepY RPMRepoLink ImagesReadyLink, stepZ RPMRepoLink ReleaseImagesLink]
        (replicate 3 False, [], [''Z'']) = ([False, False, True], [RPMRepoLink], [])
   \<and> (\<exists>c r p. closureLoop [stepX RPMRepoLink, stepY RPMRepoLink ImagesReadyLink, stepZ RPMRepoLink ReleaseImagesLink]
                  [False, False, True] [RPMRepoLink] 0 = Some (c, r, p) \<and> p \<le> 3)"
proof -
  let ?steps = "[stepX RPMRepoLink, stepY RPMRepoLink ImagesReadyLink, stepZ RPMRepoLink ReleaseImagesLink]"
  have s: "seedLoop 0 ?steps (replicate (length ?steps) False, [], [''Z'']) = ([False, False, True], [RPMRepoLink], [])"
    by simp
  from closureLoop_terminates_within_steps [of "[False, False, True]" ?steps "[RPMRepoLink]" "[''Z'']"] s
  have "\<exists>c r p. closureLoop ?steps [False, False, True] [RPMRepoLink] 0 = Some (c, r, p) \<and> p \<le> length ?steps"
    by blast
  with s show ?thesis by (simp add: numeral_3_eq_3)
qed

end
